theory Spec2Isabelle
  imports Main
begin

section \<open>tab\_stats.py: domain statistics of browser tabs\<close>

text \<open>
  The script \<^verbatim>\<open>skills/browser-tab-organizer/scripts/tab_stats.py\<close> has one function,
  \<^verbatim>\<open>main(json_path)\<close>. It tests that the path exists, loads the file as JSON, collects
  \<^verbatim>\<open>urlparse(t['url']).netloc\<close> of every element \<^verbatim>\<open>t\<close> with \<^verbatim>\<open>'url' in t\<close>, counts
  the domains with \<^verbatim>\<open>Counter(domains).most_common()\<close> and prints a table of the first
  30 entries.

  The embedding follows the function statement by statement. Python exceptions are
  values of the type \<open>exn\<close>; every line that \<^verbatim>\<open>print\<close> writes is collected, one text per
  call, in the field \<open>printed\<close> of the result.
\<close>

subsection \<open>Values\<close>

text \<open>
  A Python \<^verbatim>\<open>str\<close> is a sequence of code points. The strings of a JSON document can
  hold any of them, a lone surrogate included (\<^verbatim>\<open>"\ud800"\<close> is accepted by
  \<^verbatim>\<open>json.load\<close>). \<open>ord\<close> is the code point of a character of a HOL string and \<open>uni\<close>
  the \<^verbatim>\<open>str\<close> of a HOL string; the string literals of the script are given this way.
\<close>

type_synonym unicode = "nat list"

definition ord :: "char \<Rightarrow> nat" where
  "ord c = of_char c"

definition uni :: "string \<Rightarrow> unicode" where
  "uni s = map ord s"

text \<open>What \<^verbatim>\<open>json.load\<close> can return. A float only matters through its truth value
  (\<^verbatim>\<open>0.0\<close> is false, every other float, \<^verbatim>\<open>NaN\<close> included, is true).\<close>

datatype pyfloat = Flt int int | Inf bool | NaN

datatype json =
    JNull
  | JBool bool
  | JInt int
  | JFloat pyfloat
  | JString unicode
  | JArray "json list"
  | JObject "(unicode \<times> json) list"

text \<open>The exceptions the statements of \<^verbatim>\<open>main\<close> can raise outside its \<^verbatim>\<open>try\<close> block.\<close>

datatype exn = TypeError | ValueError | AttributeError | KeyError | UnicodeEncodeError

text \<open>\<^verbatim>\<open>urlparse\<close> answers a \<^verbatim>\<open>str\<close> argument with \<^verbatim>\<open>str\<close> components and any other
  argument with \<^verbatim>\<open>bytes\<close> components, so a domain is one or the other.\<close>

datatype pystr = Str unicode | Bytes string

text \<open>Python's truth value of a loaded JSON value (\<^verbatim>\<open>bool(x)\<close>).\<close>

fun float_is_zero :: "pyfloat \<Rightarrow> bool" where
  "float_is_zero (Flt m e) = (m = 0)"
| "float_is_zero (Inf s) = False"
| "float_is_zero NaN = False"

fun truthy :: "json \<Rightarrow> bool" where
  "truthy JNull = False"
| "truthy (JBool b) = b"
| "truthy (JInt i) = (i \<noteq> 0)"
| "truthy (JFloat f) = (\<not> float_is_zero f)"
| "truthy (JString s) = (s \<noteq> [])"
| "truthy (JArray xs) = (xs \<noteq> [])"
| "truthy (JObject kvs) = (kvs \<noteq> [])"

subsection \<open>The interpreter's environment\<close>

text \<open>
  Three things that \<^verbatim>\<open>main\<close> reaches through the standard library are parameters of
  the model:
  \<^item> \<open>host_ok h\<close>: \<^verbatim>\<open>urllib.parse._check_bracketed_host(h)\<close> returns, that is, the
    \<^verbatim>\<open>ipaddress\<close> module accepts \<open>h\<close> as an IPv6 or IPvFuture literal;
  \<^item> \<open>nfkc s\<close>: \<^verbatim>\<open>unicodedata.normalize('NFKC', s)\<close>;
  \<^item> \<open>stdout_errors\<close>: the error handler of \<^verbatim>\<open>sys.stdout\<close>, which is \<^verbatim>\<open>strict\<close> or,
    in the C locale, \<^verbatim>\<open>surrogateescape\<close>. Standard output encodes UTF-8.
\<close>

datatype errors = Strict | SurrogateEscape

record env =
  host_ok :: "unicode \<Rightarrow> bool"
  nfkc :: "unicode \<Rightarrow> unicode"
  stdout_errors :: errors

text \<open>
  UTF-8 encodes every code point but the surrogates \<^verbatim>\<open>U+D800\<close> to \<^verbatim>\<open>U+DFFF\<close>; the
  handler \<^verbatim>\<open>surrogateescape\<close> writes the surrogates \<^verbatim>\<open>U+DC80\<close> to \<^verbatim>\<open>U+DCFF\<close> as
  the bytes they stand for. \<^verbatim>\<open>print\<close> raises \<^verbatim>\<open>UnicodeEncodeError\<close> on a text with any
  other surrogate and writes nothing of it; otherwise the text is one more line of the
  output.
\<close>

definition encodable :: "errors \<Rightarrow> nat \<Rightarrow> bool" where
  "encodable h c =
     (\<not> (0xD800 \<le> c \<and> c \<le> 0xDFFF) \<or> (h = SurrogateEscape \<and> 0xDC80 \<le> c \<and> c \<le> 0xDCFF))"

definition py_print :: "env \<Rightarrow> unicode \<Rightarrow> unicode list \<Rightarrow> exn + unicode list" where
  "py_print env line out =
     (if list_all (encodable (stdout_errors env)) line then Inr (out @ [line])
      else Inl UnicodeEncodeError)"

subsection \<open>The standard library's \<^verbatim>\<open>urlparse(...).netloc\<close>\<close>

text \<open>
  \<^verbatim>\<open>urllib.parse.urlsplit\<close> (CPython 3.11.4 and later), reduced to the statements that
  decide the \<^verbatim>\<open>netloc\<close> component or raise:
  \<^verbatim>\<open>
    url = url.lstrip(_WHATWG_C0_CONTROL_OR_SPACE)
    for b in _UNSAFE_URL_BYTES_TO_REMOVE: url = url.replace(b, "")
    netloc = ''
    i = url.find(':')
    if i > 0 and url[0].isascii() and url[0].isalpha():
        for c in url[:i]:
            if c not in scheme_chars: break
        else: scheme, url = url[:i].lower(), url[i+1:]
    if url[:2] == '//':
        netloc, url = _splitnetloc(url, 2)
        if (('[' in netloc and ']' not in netloc) or
                (']' in netloc and '[' not in netloc)):
            raise ValueError("Invalid IPv6 URL")
        if '[' in netloc and ']' in netloc:
            bracketed_host = netloc.partition('[')[2].partition(']')[0]
            _check_bracketed_host(bracketed_host)
    ...
    _checknetloc(netloc)
  \<close>
\<close>

definition is_c0_control_or_space :: "nat \<Rightarrow> bool" where
  "is_c0_control_or_space c = (c \<le> 32)"

definition is_unsafe_url_byte :: "nat \<Rightarrow> bool" where
  "is_unsafe_url_byte c = (c \<in> {9, 13, 10})"

definition ascii_letters :: string where
  "ascii_letters = ''abcdefghijklmnopqrstuvwxyzABCDEFGHIJKLMNOPQRSTUVWXYZ''"

definition scheme_chars :: string where
  "scheme_chars = ''abcdefghijklmnopqrstuvwxyzABCDEFGHIJKLMNOPQRSTUVWXYZ0123456789+-.''"

text \<open>The url after its scheme has been split off, when it has one.\<close>

definition strip_scheme :: "unicode \<Rightarrow> unicode" where
  "strip_scheme url =
     (let pre = takeWhile (\<lambda>c. c \<noteq> ord CHR '':'') url in
      if ord CHR '':'' \<in> set url \<and> pre \<noteq> [] \<and> hd url \<in> set (uni ascii_letters)
           \<and> list_all (\<lambda>c. c \<in> set (uni scheme_chars)) pre
      then drop (length pre + 1) url
      else url)"

text \<open>\<^verbatim>\<open>_splitnetloc(url, start)\<close>: cut at the first of \<^verbatim>\<open>/\<close>, \<^verbatim>\<open>?\<close>, \<^verbatim>\<open>#\<close> at or
  after \<open>start\<close>.\<close>

definition is_netloc_delim :: "nat \<Rightarrow> bool" where
  "is_netloc_delim c = (c = ord CHR ''/'' \<or> c = ord CHR ''?'' \<or> c = ord CHR ''#'')"

definition splitnetloc :: "unicode \<Rightarrow> nat \<Rightarrow> unicode \<times> unicode" where
  "splitnetloc url start =
     (takeWhile (\<lambda>c. \<not> is_netloc_delim c) (drop start url),
      dropWhile (\<lambda>c. \<not> is_netloc_delim c) (drop start url))"

text \<open>\<^verbatim>\<open>netloc.partition('[')[2].partition(']')[0]\<close>\<close>

definition bracketed_host :: "unicode \<Rightarrow> unicode" where
  "bracketed_host netloc =
     takeWhile (\<lambda>c. c \<noteq> ord CHR '']'')
       (drop 1 (dropWhile (\<lambda>c. c \<noteq> ord CHR ''['') netloc))"

text \<open>
  \<^verbatim>\<open>_checknetloc(netloc)\<close>, true when it raises \<^verbatim>\<open>ValueError\<close>:
  \<^verbatim>\<open>
    if not netloc or netloc.isascii(): return
    n = netloc.replace('@', '').replace(':', '').replace('#', '').replace('?', '')
    netloc2 = unicodedata.normalize('NFKC', n)
    if n == netloc2: return
    for c in '/?#@:':
        if c in netloc2: raise ValueError(...)
  \<close>
\<close>

definition checknetloc_raises :: "env \<Rightarrow> unicode \<Rightarrow> bool" where
  "checknetloc_raises env netloc =
     (if netloc = [] \<or> list_all (\<lambda>c. c < 128) netloc then False
      else
        (let n = filter (\<lambda>c. c \<notin> set (uni ''@:#?'')) netloc;
             netloc2 = nfkc env n
         in if n = netloc2 then False
            else list_ex (\<lambda>c. c \<in> set netloc2) (uni ''/?#@:'')))"

definition urlsplit_netloc :: "env \<Rightarrow> unicode \<Rightarrow> exn + unicode" where
  "urlsplit_netloc env url0 =
     (let url1 = dropWhile is_c0_control_or_space url0;
          url2 = filter (\<lambda>c. \<not> is_unsafe_url_byte c) url1;
          url3 = strip_scheme url2
      in if take 2 url3 = uni ''//'' then
           (let netloc = fst (splitnetloc url3 2) in
            if (ord CHR ''['' \<in> set netloc \<and> ord CHR '']'' \<notin> set netloc)
                 \<or> (ord CHR '']'' \<in> set netloc \<and> ord CHR ''['' \<notin> set netloc)
            then Inl ValueError
            else if ord CHR ''['' \<in> set netloc \<and> ord CHR '']'' \<in> set netloc
                      \<and> \<not> host_ok env (bracketed_host netloc)
            then Inl ValueError
            else if checknetloc_raises env netloc then Inl ValueError
            else Inr netloc)
         else if checknetloc_raises env [] then Inl ValueError
         else Inr [])"

text \<open>
  \<^verbatim>\<open>urlparse(v).netloc\<close> for a loaded JSON value \<open>v\<close>. For a \<^verbatim>\<open>str\<close> it is the netloc
  of \<^verbatim>\<open>urlsplit\<close>. For any other value \<^verbatim>\<open>_coerce_args\<close> runs
  \<^verbatim>\<open>x.decode(encoding, errors) if x else ''\<close>: a false value is parsed as the empty url
  and the result is encoded to \<^verbatim>\<open>bytes\<close>, so the netloc is \<^verbatim>\<open>b''\<close>; a true value has
  no \<^verbatim>\<open>decode\<close> and raises \<^verbatim>\<open>AttributeError\<close>.
\<close>

definition urlparse_netloc :: "env \<Rightarrow> json \<Rightarrow> exn + pystr" where
  "urlparse_netloc env v =
     (case v of
        JString u \<Rightarrow>
          (case urlsplit_netloc env u of Inl e \<Rightarrow> Inl e | Inr n \<Rightarrow> Inr (Str n))
      | _ \<Rightarrow> if truthy v then Inl AttributeError else Inr (Bytes []))"

subsection \<open>The Domain Extractor\<close>

text \<open>
  \<^verbatim>\<open>domains = [urlparse(t['url']).netloc for t in tabs if 'url' in t]\<close>

  \<open>iterate\<close> is \<^verbatim>\<open>for t in tabs\<close>: a list gives its elements, a dict its keys, a string its
  characters, anything else is not iterable.
\<close>

definition iterate :: "json \<Rightarrow> exn + json list" where
  "iterate tabs =
     (case tabs of
        JArray ts \<Rightarrow> Inr ts
      | JObject kvs \<Rightarrow> Inr (map (\<lambda>kv. JString (fst kv)) kvs)
      | JString s \<Rightarrow> Inr (map (\<lambda>c. JString [c]) s)
      | _ \<Rightarrow> Inl TypeError)"

text \<open>\<^verbatim>\<open>sub in s\<close> on strings: \<open>sub\<close> occurs in \<open>s\<close> as a contiguous piece.\<close>

fun str_contains :: "unicode \<Rightarrow> unicode \<Rightarrow> bool" where
  "str_contains [] sub = (sub = [])"
| "str_contains (c # s) sub = (take (length sub) (c # s) = sub \<or> str_contains s sub)"

text \<open>\<^verbatim>\<open>'url' in t\<close>: a key of a dict, an element of a list, a piece of a string; any other
  value is not a container.\<close>

definition contains_url :: "json \<Rightarrow> exn + bool" where
  "contains_url t =
     (case t of
        JObject kvs \<Rightarrow> Inr (uni ''url'' \<in> set (map fst kvs))
      | JArray xs \<Rightarrow> Inr (JString (uni ''url'') \<in> set xs)
      | JString s \<Rightarrow> Inr (str_contains s (uni ''url''))
      | _ \<Rightarrow> Inl TypeError)"

text \<open>\<^verbatim>\<open>t['url']\<close>: the value of the key in a dict; lists and strings take integer
  indices only, the other values no subscript at all.\<close>

definition subscript_url :: "json \<Rightarrow> exn + json" where
  "subscript_url t =
     (case t of
        JObject kvs \<Rightarrow>
          (case map_of kvs (uni ''url'') of None \<Rightarrow> Inl KeyError | Some v \<Rightarrow> Inr v)
      | _ \<Rightarrow> Inl TypeError)"

text \<open>The comprehension, element by element; the first exception ends it.\<close>

fun comprehension :: "env \<Rightarrow> json list \<Rightarrow> exn + pystr list" where
  "comprehension env [] = Inr []"
| "comprehension env (t # ts) =
     (case contains_url t of
        Inl e \<Rightarrow> Inl e
      | Inr False \<Rightarrow> comprehension env ts
      | Inr True \<Rightarrow>
          (case subscript_url t of
             Inl e \<Rightarrow> Inl e
           | Inr v \<Rightarrow>
               (case urlparse_netloc env v of
                  Inl e \<Rightarrow> Inl e
                | Inr d \<Rightarrow>
                    (case comprehension env ts of
                       Inl e \<Rightarrow> Inl e
                     | Inr ds \<Rightarrow> Inr (d # ds)))))"

definition extract_domains :: "env \<Rightarrow> json \<Rightarrow> exn + pystr list" where
  "extract_domains env tabs =
     (case iterate tabs of Inl e \<Rightarrow> Inl e | Inr ts \<Rightarrow> comprehension env ts)"

subsection \<open>The Aggregator\<close>

text \<open>
  \<^verbatim>\<open>stats = Counter(domains).most_common()\<close>

  A \<^verbatim>\<open>Counter\<close> is a dict, which keeps its keys in insertion order, filled by
  \<^verbatim>\<open>mapping[elem] = mapping.get(elem, 0) + 1\<close> for each element in turn: an
  association list whose new keys go to the end.
\<close>

fun count_elem :: "('a \<times> int) list \<Rightarrow> 'a \<Rightarrow> ('a \<times> int) list" where
  "count_elem [] x = [(x, 1)]"
| "count_elem ((k, c) # m) x =
     (if k = x then (k, c + 1) # m else (k, c) # count_elem m x)"

definition Counter :: "'a list \<Rightarrow> ('a \<times> int) list" where
  "Counter xs = foldl count_elem [] xs"

text \<open>\<^verbatim>\<open>most_common()\<close> without a limit is
  \<^verbatim>\<open>sorted(self.items(), key=itemgetter(1), reverse=True)\<close>: a stable sort by descending
  count. \<open>sort_key\<close> is a stable insertion sort by ascending key.\<close>

definition most_common :: "('a \<times> int) list \<Rightarrow> ('a \<times> int) list" where
  "most_common items = sort_key (\<lambda>p. - snd p) items"

subsection \<open>The Reporter\<close>

text \<open>The format specification \<^verbatim>\<open><n\<close>: left-justified, filled with spaces up to \<open>n\<close>
  code points.\<close>

definition ljust :: "nat \<Rightarrow> unicode \<Rightarrow> unicode" where
  "ljust n s = s @ replicate (n - length s) (ord CHR '' '')"

text \<open>The decimal digits of an integer, as \<^verbatim>\<open>format\<close> writes them.\<close>

fun digits_of :: "nat \<Rightarrow> string" where
  "digits_of n =
     (if n < 10 then [''0123456789'' ! n]
      else digits_of (n div 10) @ [''0123456789'' ! (n mod 10)])"

declare digits_of.simps [simp del]

definition str_int :: "int \<Rightarrow> string" where
  "str_int i = (if i < 0 then CHR ''-'' # digits_of (nat (- i)) else digits_of (nat i))"

text \<open>\<^verbatim>\<open>f"{domain:<40} | {count:<10}"\<close>. A \<^verbatim>\<open>bytes\<close> value takes no format
  specification: \<^verbatim>\<open>bytes.__format__\<close> raises \<^verbatim>\<open>TypeError\<close>.\<close>

definition format_row :: "pystr \<Rightarrow> int \<Rightarrow> exn + unicode" where
  "format_row domain count =
     (case domain of
        Str d \<Rightarrow> Inr (ljust 40 d @ uni '' | '' @ ljust 10 (uni (str_int count)))
      | Bytes b \<Rightarrow> Inl TypeError)"

definition header :: unicode where
  "header = ljust 40 (uni ''Domain'') @ uni '' | '' @ ljust 10 (uni ''Count'')"

definition separator :: unicode where
  "separator = uni (replicate 53 CHR ''-'')"

text \<open>The loop \<^verbatim>\<open>for domain, count in stats[:30]: print(...)\<close>, started with the lines
  printed so far; it gives the lines printed at its end and the exception that ended
  it, if any.\<close>

fun print_rows ::
  "env \<Rightarrow> (pystr \<times> int) list \<Rightarrow> unicode list \<Rightarrow> unicode list \<times> exn option" where
  "print_rows env [] out = (out, None)"
| "print_rows env ((domain, count) # rest) out =
     (case format_row domain count of
        Inl e \<Rightarrow> (out, Some e)
      | Inr line \<Rightarrow>
          (case py_print env line out of
             Inl e \<Rightarrow> (out, Some e)
           | Inr out' \<Rightarrow> print_rows env rest out'))"

subsection \<open>\<^verbatim>\<open>main\<close>\<close>

text \<open>
  The file system as \<^verbatim>\<open>main\<close> sees it. For a path, \<^verbatim>\<open>os.path.exists\<close> is false
  (\<open>Missing\<close>), or it is true and the \<^verbatim>\<open>try\<close> block (\<^verbatim>\<open>open\<close> and \<^verbatim>\<open>json.load\<close>)
  either raises an exception \<^verbatim>\<open>e\<close>, given by the text of \<^verbatim>\<open>str(e)\<close> (\<open>Unloadable\<close>),
  or returns a value (\<open>Loaded\<close>). The path and the text of the exception are HOL
  strings.
\<close>

datatype file_state = Missing | Unloadable string | Loaded json

text \<open>A run of \<^verbatim>\<open>main\<close>: the lines printed, the paths handed to \<^verbatim>\<open>open\<close>, and the
  exception that left \<^verbatim>\<open>main\<close>, if one did.\<close>

record run =
  printed :: "unicode list"
  opened :: "string list"
  raised :: "exn option"

definition main :: "env \<Rightarrow> (string \<Rightarrow> file_state) \<Rightarrow> string \<Rightarrow> run" where
  "main env fs json_path =
     (case fs json_path of
        Missing \<Rightarrow>
          (case py_print env (uni (''Error: File '' @ json_path @ '' not found.'')) [] of
             Inl x \<Rightarrow> \<lparr>printed = [], opened = [], raised = Some x\<rparr>
           | Inr out \<Rightarrow> \<lparr>printed = out, opened = [], raised = None\<rparr>)
      | Unloadable e \<Rightarrow>
          (case py_print env (uni (''Error reading JSON: '' @ e)) [] of
             Inl x \<Rightarrow> \<lparr>printed = [], opened = [json_path], raised = Some x\<rparr>
           | Inr out \<Rightarrow> \<lparr>printed = out, opened = [json_path], raised = None\<rparr>)
      | Loaded tabs \<Rightarrow>
          (case extract_domains env tabs of
             Inl x \<Rightarrow> \<lparr>printed = [], opened = [json_path], raised = Some x\<rparr>
           | Inr domains \<Rightarrow>
               (let stats = most_common (Counter domains) in
                case py_print env header [] of
                  Inl x \<Rightarrow> \<lparr>printed = [], opened = [json_path], raised = Some x\<rparr>
                | Inr out1 \<Rightarrow>
                    (case py_print env separator out1 of
                       Inl x \<Rightarrow> \<lparr>printed = out1, opened = [json_path], raised = Some x\<rparr>
                     | Inr out2 \<Rightarrow>
                         (let (out, r) = print_rows env (take 30 stats) out2
                          in \<lparr>printed = out, opened = [json_path], raised = r\<rparr>)))))"

subsection \<open>Notions of the specification\<close>

text \<open>The position of the first occurrence of \<open>x\<close> in \<open>xs\<close> (\<^verbatim>\<open>xs.index(x)\<close>).\<close>

fun first_index :: "'a list \<Rightarrow> 'a \<Rightarrow> nat" where
  "first_index [] x = 0"
| "first_index (y # ys) x = (if y = x then 0 else Suc (first_index ys x))"

text \<open>A record that contains a \<^verbatim>\<open>url\<close> key.\<close>

definition has_url :: "json \<Rightarrow> bool" where
  "has_url t = (case t of JObject kvs \<Rightarrow> uni ''url'' \<in> set (map fst kvs) | _ \<Rightarrow> False)"

text \<open>Well-typed input: a sequence of mappings whose \<^verbatim>\<open>url\<close> values, when present,
  are strings.\<close>

definition well_typed_record :: "json \<Rightarrow> bool" where
  "well_typed_record t =
     (case t of
        JObject kvs \<Rightarrow>
          (case map_of kvs (uni ''url'') of
             None \<Rightarrow> True
           | Some v \<Rightarrow> (case v of JString u \<Rightarrow> True | _ \<Rightarrow> False))
      | _ \<Rightarrow> False)"

definition well_typed :: "json \<Rightarrow> bool" where
  "well_typed tabs = (case tabs of JArray ts \<Rightarrow> list_all well_typed_record ts | _ \<Rightarrow> False)"

text \<open>The records of the input that contain a \<^verbatim>\<open>url\<close> key.\<close>

definition url_records :: "json \<Rightarrow> json list" where
  "url_records tabs = (case tabs of JArray ts \<Rightarrow> filter has_url ts | _ \<Rightarrow> [])"

text \<open>
  The authority component of a url string: the text that \<^verbatim>\<open>urlsplit\<close> cuts out as
  netloc, empty when no \<^verbatim>\<open>//\<close> follows the scheme.
\<close>

definition url_netloc :: "unicode \<Rightarrow> unicode" where
  "url_netloc url =
     (let rest = strip_scheme
                   (filter (\<lambda>c. \<not> is_unsafe_url_byte c) (dropWhile is_c0_control_or_space url))
      in if take 2 rest = uni ''//'' then fst (splitnetloc rest 2) else [])"

text \<open>
  The authority components that \<^verbatim>\<open>urlparse\<close> rejects with \<^verbatim>\<open>ValueError\<close>: one
  square bracket without the other, a bracketed host that is no IP literal, or a
  character that NFKC normalisation turns into one of \<^verbatim>\<open>/?#@:\<close>.
\<close>

definition netloc_rejected :: "env \<Rightarrow> unicode \<Rightarrow> bool" where
  "netloc_rejected env netloc =
     ((ord CHR ''['' \<in> set netloc \<and> ord CHR '']'' \<notin> set netloc)
      \<or> (ord CHR '']'' \<in> set netloc \<and> ord CHR ''['' \<notin> set netloc)
      \<or> (ord CHR ''['' \<in> set netloc \<and> ord CHR '']'' \<in> set netloc
            \<and> \<not> host_ok env (bracketed_host netloc))
      \<or> checknetloc_raises env netloc)"

text \<open>A mapping whose \<^verbatim>\<open>url\<close> value, when present, is a string that \<^verbatim>\<open>urlparse\<close>
  accepts, and a sequence of such mappings.\<close>

definition accepted_record :: "env \<Rightarrow> json \<Rightarrow> bool" where
  "accepted_record env t =
     (case t of
        JObject kvs \<Rightarrow>
          (case map_of kvs (uni ''url'') of
             None \<Rightarrow> True
           | Some v \<Rightarrow>
               (case v of JString u \<Rightarrow> \<not> netloc_rejected env (url_netloc u) | _ \<Rightarrow> False))
      | _ \<Rightarrow> False)"

definition accepted_input :: "env \<Rightarrow> json \<Rightarrow> bool" where
  "accepted_input env tabs =
     (case tabs of JArray ts \<Rightarrow> list_all (accepted_record env) ts | _ \<Rightarrow> False)"

text \<open>A mapping without a \<^verbatim>\<open>url\<close> key.\<close>

definition record_without_url :: "json \<Rightarrow> bool" where
  "record_without_url t =
     (case t of JObject kvs \<Rightarrow> uni ''url'' \<notin> set (map fst kvs) | _ \<Rightarrow> False)"

text \<open>A domain that is a \<^verbatim>\<open>str\<close>, and a domain whose row can be printed: a \<^verbatim>\<open>str\<close>
  that standard output can encode.\<close>

fun is_str :: "pystr \<Rightarrow> bool" where
  "is_str (Str s) = True"
| "is_str (Bytes b) = False"

definition printable :: "env \<Rightarrow> pystr \<Rightarrow> bool" where
  "printable env domain =
     (case domain of
        Str d \<Rightarrow> list_all (encodable (stdout_errors env)) d
      | Bytes b \<Rightarrow> False)"

text \<open>A mapping whose \<^verbatim>\<open>url\<close> value, when present, is a string with an authority
  component that \<^verbatim>\<open>urlparse\<close> accepts and standard output can encode, and a sequence
  of such mappings.\<close>

definition printable_record :: "env \<Rightarrow> json \<Rightarrow> bool" where
  "printable_record env t =
     (case t of
        JObject kvs \<Rightarrow>
          (case map_of kvs (uni ''url'') of
             None \<Rightarrow> True
           | Some v \<Rightarrow>
               (case v of
                  JString u \<Rightarrow>
                    \<not> netloc_rejected env (url_netloc u)
                    \<and> list_all (encodable (stdout_errors env)) (url_netloc u)
                | _ \<Rightarrow> False))
      | _ \<Rightarrow> False)"

definition printable_input :: "env \<Rightarrow> json \<Rightarrow> bool" where
  "printable_input env tabs =
     (case tabs of JArray ts \<Rightarrow> list_all (printable_record env) ts | _ \<Rightarrow> False)"

text \<open>
  An environment for the examples. Of the bracketed hosts it accepts \<^verbatim>\<open>::1\<close> only,
  and its normalisation expands \<^verbatim>\<open>U+2100\<close> (the sign a/c) to \<^verbatim>\<open>a/c\<close> and keeps
  every other code point, as NFKC does on the code points the examples use.
\<close>

definition example_env :: env where
  "example_env =
     \<lparr>host_ok = (\<lambda>h. h = uni ''::1''),
      nfkc = (\<lambda>s. concat (map (\<lambda>c. if c = 0x2100 then uni ''a/c'' else [c]) s)),
      stdout_errors = Strict\<rparr>"

section \<open>Properties\<close>

subsection \<open>Counting\<close>

lemma first_index_less: "x \<in> set xs \<Longrightarrow> first_index xs x < length xs"
  by (induction xs) auto

lemma first_index_append_in: "x \<in> set xs \<Longrightarrow> first_index (xs @ ys) x = first_index xs x"
  by (induction xs) auto

lemma first_index_append_notin:
  "x \<notin> set xs \<Longrightarrow> first_index (xs @ ys) x = length xs + first_index ys x"
  by (induction xs) auto

lemma keys_count_elem:
  "map fst (count_elem m x) = (if x \<in> set (map fst m) then map fst m else map fst m @ [x])"
  by (induction m x rule: count_elem.induct) auto

lemma sum_count_elem: "sum_list (map snd (count_elem m x)) = sum_list (map snd m) + 1"
  by (induction m x rule: count_elem.induct) auto

lemma map_of_count_elem:
  "map_of (count_elem m x) =
     (map_of m)(x \<mapsto> (case map_of m x of None \<Rightarrow> 1 | Some c \<Rightarrow> c + 1))"
  by (induction m x rule: count_elem.induct) (auto simp: fun_eq_iff)

lemma Counter_snoc: "Counter (xs @ [x]) = count_elem (Counter xs) x"
  by (simp add: Counter_def)

lemma Counter_Nil: "Counter [] = []"
  by (simp add: Counter_def)

lemma set_keys_Counter: "set (map fst (Counter xs)) = set xs"
  by (induction xs rule: rev_induct) (auto simp: Counter_Nil Counter_snoc keys_count_elem)

lemma distinct_keys_Counter: "distinct (map fst (Counter xs))"
proof (induction xs rule: rev_induct)
  case Nil
  show ?case by (simp add: Counter_Nil)
next
  case (snoc x xs)
  then show ?case
    by (simp add: Counter_snoc keys_count_elem)
qed

lemma sum_Counter: "sum_list (map snd (Counter xs)) = int (length xs)"
  by (induction xs rule: rev_induct) (simp_all add: Counter_Nil Counter_snoc sum_count_elem)

lemma map_of_Counter:
  "map_of (Counter xs) d = (if d \<in> set xs then Some (int (count_list xs d)) else None)"
proof (induction xs rule: rev_induct)
  case Nil
  show ?case by (simp add: Counter_Nil)
next
  case (snoc x xs)
  then show ?case
    by (auto simp: Counter_snoc map_of_count_elem count_list_0_iff)
qed

lemma set_Counter: "set (Counter xs) = (\<lambda>d. (d, int (count_list xs d))) ` set xs"
proof -
  have "(d, c) \<in> set (Counter xs) \<longleftrightarrow> d \<in> set xs \<and> c = int (count_list xs d)" for d c
  proof -
    have "(d, c) \<in> set (Counter xs) \<longleftrightarrow> map_of (Counter xs) d = Some c"
      using distinct_keys_Counter [of xs] by simp
    then show ?thesis
      by (simp add: map_of_Counter) blast
  qed
  then show ?thesis by auto
qed

lemma keys_Counter_order:
  "sorted_wrt (\<lambda>a b. first_index xs a < first_index xs b) (map fst (Counter xs))"
proof (induction xs rule: rev_induct)
  case Nil
  show ?case by (simp add: Counter_Nil)
next
  case (snoc x xs)
  have old: "sorted_wrt (\<lambda>a b. first_index (xs @ [x]) a < first_index (xs @ [x]) b)
               (map fst (Counter xs))"
    using snoc
    by (rule sorted_wrt_mono_rel [rotated])
       (simp add: set_keys_Counter first_index_append_in del: set_map)
  show ?case
  proof (cases "x \<in> set xs")
    case True
    with old show ?thesis
      using set_keys_Counter [of xs] by (simp add: Counter_snoc keys_count_elem del: set_map)
  next
    case False
    have "first_index (xs @ [x]) a < first_index (xs @ [x]) x" if "a \<in> set xs" for a
      using that False first_index_less [of a xs]
      by (simp add: first_index_append_in first_index_append_notin)
    with old False show ?thesis
      using set_keys_Counter [of xs]
      by (simp add: Counter_snoc keys_count_elem sorted_wrt_append del: set_map)
  qed
qed

lemma most_common_sorted: "sorted_wrt (\<lambda>a b. snd b \<le> snd a) (most_common m)"
proof -
  have "sorted (map (\<lambda>p. - snd p) (sort_key (\<lambda>p. - snd p) m))"
    by (rule sorted_sort_key)
  then show ?thesis
    by (simp add: most_common_def sorted_map)
qed

lemma most_common_stable:
  "filter (\<lambda>p. snd p = c) (most_common m) = filter (\<lambda>p. snd p = c) m"
  using sort_key_stable [of "\<lambda>p. - snd p" "- c" m] by (simp add: most_common_def)

lemma set_most_common: "set (most_common m) = set m"
  by (simp add: most_common_def)

lemma length_most_common: "length (most_common m) = length m"
  by (simp add: most_common_def)

lemma distinct_keys_most_common:
  "distinct (map fst m) \<Longrightarrow> distinct (map fst (most_common m))"
  by (simp add: most_common_def distinct_map)

lemma sorted_wrt_filter_nth:
  assumes "sorted_wrt R (filter P xs)" "i < j" "j < length xs" "P (xs ! i)" "P (xs ! j)"
  shows "R (xs ! i) (xs ! j)"
proof -
  have i: "i < length xs" using assms by simp
  have split: "xs = take i xs @ xs ! i # drop (Suc i) xs"
    using i by (rule id_take_nth_drop)
  have "xs ! j \<in> set (drop (Suc i) xs)"
    using assms(2,3) by (auto simp: in_set_conv_nth intro!: exI [of _ "j - Suc i"])
  then have mem: "xs ! j \<in> set (filter P (drop (Suc i) xs))"
    using assms(5) by simp
  have "sorted_wrt R (filter P (take i xs) @ xs ! i # filter P (drop (Suc i) xs))"
    using assms(1,4) by (subst (asm) split) simp
  then show ?thesis
    using mem by (auto simp: sorted_wrt_append)
qed

subsection \<open>Extraction\<close>

lemma urlsplit_netloc_eq:
  "urlsplit_netloc env u =
     (if netloc_rejected env (url_netloc u) then Inl ValueError else Inr (url_netloc u))"
proof -
  define rest where
    "rest = strip_scheme
              (filter (\<lambda>c. \<not> is_unsafe_url_byte c) (dropWhile is_c0_control_or_space u))"
  show ?thesis
  proof (cases "take 2 rest = uni ''//''")
    case True
    then show ?thesis
      by (simp add: urlsplit_netloc_def url_netloc_def Let_def rest_def [symmetric]
            netloc_rejected_def)
  next
    case False
    then show ?thesis
      by (simp add: urlsplit_netloc_def url_netloc_def Let_def rest_def [symmetric]
            netloc_rejected_def checknetloc_raises_def)
  qed
qed

lemma has_url_map_of:
  "has_url (JObject kvs) \<longleftrightarrow> map_of kvs (uni ''url'') \<noteq> None"
  by (simp add: has_url_def map_of_eq_None_iff)

lemma comprehension_url_free:
  assumes "map_of kvs (uni ''url'') = None"
  shows "comprehension env (JObject kvs # ts) = comprehension env ts"
  using assms by (simp add: contains_url_def map_of_eq_None_iff)

lemma comprehension_url_string:
  assumes "map_of kvs (uni ''url'') = Some (JString u)"
  shows "comprehension env (JObject kvs # ts) =
           (if netloc_rejected env (url_netloc u) then Inl ValueError
            else case comprehension env ts of
                   Inl e \<Rightarrow> Inl e
                 | Inr ds \<Rightarrow> Inr (Str (url_netloc u) # ds))"
proof -
  have "uni ''url'' \<in> set (map fst kvs)"
    using assms by (metis map_of_eq_None_iff option.distinct(1) set_map)
  then show ?thesis
    using assms
    by (simp add: contains_url_def subscript_url_def urlparse_netloc_def urlsplit_netloc_eq)
qed

declare comprehension.simps(2) [simp del]

lemma comprehension_well_typed:
  assumes "list_all well_typed_record ts" "comprehension env ts = Inr ds"
  shows "list_all is_str ds \<and> length ds = length (filter has_url ts)"
  using assms
proof (induction ts arbitrary: ds)
  case Nil
  then show ?case by simp
next
  case (Cons t ts)
  from Cons.prems obtain kvs where t: "t = JObject kvs"
    by (auto simp: well_typed_record_def split: json.splits)
  show ?case
  proof (cases "map_of kvs (uni ''url'')")
    case None
    then show ?thesis
      using Cons t by (simp add: comprehension_url_free has_url_map_of)
  next
    case (Some v)
    with Cons.prems t obtain u where u: "v = JString u"
      by (auto simp: well_typed_record_def split: json.splits)
    with Cons.prems(2) t Some obtain ds' where
      "comprehension env ts = Inr ds'" "ds = Str (url_netloc u) # ds'"
      by (auto simp: comprehension_url_string split: if_splits sum.splits)
    then show ?thesis
      using Cons.IH [of ds'] Cons.prems(1) t Some
      by (simp add: has_url_map_of)
  qed
qed

lemma comprehension_accepted:
  assumes "list_all (accepted_record env) ts"
  shows "\<exists>ds. comprehension env ts = Inr ds \<and> list_all is_str ds
               \<and> length ds = length (filter has_url ts)"
  using assms
proof (induction ts)
  case Nil
  show ?case by simp
next
  case (Cons t ts)
  then obtain ds where ds: "comprehension env ts = Inr ds" "list_all is_str ds"
    "length ds = length (filter has_url ts)"
    by auto
  from Cons.prems obtain kvs where t: "t = JObject kvs"
    by (auto simp: accepted_record_def split: json.splits)
  show ?case
  proof (cases "map_of kvs (uni ''url'')")
    case None
    then show ?thesis
      using ds t by (simp add: comprehension_url_free has_url_map_of)
  next
    case (Some v)
    with Cons.prems t obtain u where u: "v = JString u" "\<not> netloc_rejected env (url_netloc u)"
      by (auto simp: accepted_record_def split: json.splits)
    then show ?thesis
      using ds t Some by (simp add: comprehension_url_string has_url_map_of)
  qed
qed

lemma comprehension_rejected:
  assumes "list_all well_typed_record ts" "\<not> list_all (accepted_record env) ts"
  shows "comprehension env ts = Inl ValueError"
  using assms
proof (induction ts)
  case Nil
  then show ?case by simp
next
  case (Cons t ts)
  from Cons.prems obtain kvs where t: "t = JObject kvs"
    by (auto simp: well_typed_record_def split: json.splits)
  show ?case
  proof (cases "map_of kvs (uni ''url'')")
    case None
    then have "accepted_record env t"
      by (simp add: accepted_record_def t)
    with Cons None t show ?thesis
      by (simp add: comprehension_url_free)
  next
    case (Some v)
    with Cons.prems t obtain u where u: "v = JString u"
      by (auto simp: well_typed_record_def split: json.splits)
    show ?thesis
    proof (cases "netloc_rejected env (url_netloc u)")
      case True
      then show ?thesis
        using t Some u by (simp add: comprehension_url_string)
    next
      case False
      then have "accepted_record env t"
        by (simp add: accepted_record_def t Some u)
      with Cons have "comprehension env ts = Inl ValueError"
        by simp
      then show ?thesis
        using t Some u False by (simp add: comprehension_url_string)
    qed
  qed
qed

lemma comprehension_no_url:
  "list_all record_without_url ts \<Longrightarrow> comprehension env ts = Inr []"
proof (induction ts)
  case Nil
  show ?case by simp
next
  case (Cons t ts)
  then obtain kvs where "t = JObject kvs" "uni ''url'' \<notin> set (map fst kvs)"
    by (auto simp: record_without_url_def split: json.splits)
  then show ?case
    using Cons by (simp add: contains_url_def comprehension.simps(2))
qed

lemma accepted_well_typed: "accepted_record env t \<Longrightarrow> well_typed_record t"
  by (auto simp: accepted_record_def well_typed_record_def split: json.splits option.splits)

lemma extract_domains_accepted:
  assumes "accepted_input env tabs"
  shows "\<exists>ds. extract_domains env tabs = Inr ds \<and> list_all is_str ds
               \<and> length ds = length (url_records tabs)"
proof -
  from assms obtain ts where ts: "tabs = JArray ts" "list_all (accepted_record env) ts"
    by (auto simp: accepted_input_def split: json.splits)
  from comprehension_accepted [OF ts(2)] show ?thesis
    by (simp add: extract_domains_def iterate_def url_records_def ts(1))
qed

lemma extract_domains_rejected:
  assumes "well_typed tabs" "\<not> accepted_input env tabs"
  shows "extract_domains env tabs = Inl ValueError"
proof -
  from assms(1) obtain ts where ts: "tabs = JArray ts" "list_all well_typed_record ts"
    by (auto simp: well_typed_def split: json.splits)
  with assms(2) have "\<not> list_all (accepted_record env) ts"
    by (simp add: accepted_input_def)
  with ts(2) have "comprehension env ts = Inl ValueError"
    by (rule comprehension_rejected)
  then show ?thesis
    by (simp add: extract_domains_def iterate_def ts(1))
qed

subsection \<open>Printing\<close>

lemma ord_less_256: "ord c < 256"
proof -
  have "(of_char c :: nat) mod 256 < 256"
    by simp
  then show ?thesis
    by (simp add: ord_def)
qed

lemma encodable_ord: "encodable h (ord c)"
  using ord_less_256 [of c] by (simp add: encodable_def)

lemma encodable_uni: "list_all (encodable h) (uni s)"
  by (simp add: uni_def list_all_iff encodable_ord)

lemma uni_append: "uni (a @ b) = uni a @ uni b"
  by (simp add: uni_def)

lemma length_uni: "length (uni s) = length s"
  by (simp add: uni_def)

lemma py_print_uni: "py_print env (uni s) out = Inr (out @ [uni s])"
  by (simp add: py_print_def encodable_uni)

lemma header_text: "header = uni ''Domain                                   | Count     ''"
  by code_simp

lemma encodable_ljust:
  "list_all (encodable h) (ljust n s) = list_all (encodable h) s"
  by (auto simp: ljust_def list_all_iff encodable_ord)

lemma py_print_row:
  "py_print env (ljust 40 d @ uni '' | '' @ ljust 10 (uni (str_int c))) out =
     (if printable env (Str d)
      then Inr (out @ [ljust 40 d @ uni '' | '' @ ljust 10 (uni (str_int c))])
      else Inl UnicodeEncodeError)"
  by (simp add: py_print_def printable_def encodable_ljust encodable_uni)

lemma print_rows_Cons:
  "print_rows env ((dn, c) # rest) out =
     (case dn of
        Bytes b \<Rightarrow> (out, Some TypeError)
      | Str d \<Rightarrow>
          if printable env (Str d)
          then print_rows env rest (out @ [ljust 40 d @ uni '' | '' @ ljust 10 (uni (str_int c))])
          else (out, Some UnicodeEncodeError))"
  by (simp add: format_row_def py_print_row split: pystr.splits)

declare print_rows.simps(2) [simp del]

lemma print_rows_prefix:
  "length out \<le> length (fst (print_rows env stats out))
   \<and> length (fst (print_rows env stats out)) \<le> length out + length stats
   \<and> take (length out) (fst (print_rows env stats out)) = out"
proof (induction stats arbitrary: out)
  case Nil
  show ?case by simp
next
  case (Cons p stats)
  obtain dn c where p: "p = (dn, c)" by (cases p)
  show ?case
  proof (cases "\<exists>d. dn = Str d \<and> printable env (Str d)")
    case False
    then show ?thesis
      by (cases dn) (simp_all add: p print_rows_Cons)
  next
    case True
    then obtain d where d: "dn = Str d" "printable env (Str d)"
      by blast
    let ?line = "ljust 40 d @ uni '' | '' @ ljust 10 (uni (str_int c))"
    let ?X = "fst (print_rows env stats (out @ [?line]))"
    have "take (length out) ?X = take (length out) (take (length (out @ [?line])) ?X)"
      by (simp add: min_def)
    also have "\<dots> = take (length out) (out @ [?line])"
      using Cons.IH [of "out @ [?line]"] by simp
    finally have "take (length out) ?X = out"
      by simp
    then show ?thesis
      using Cons.IH [of "out @ [?line]"] d by (simp add: p print_rows_Cons)
  qed
qed

lemma print_rows_nth:
  "i < length (fst (print_rows env stats out)) - length out \<Longrightarrow>
   format_row (fst (stats ! i)) (snd (stats ! i))
     = Inr (fst (print_rows env stats out) ! (length out + i))"
proof (induction stats arbitrary: out i)
  case Nil
  then show ?case by simp
next
  case (Cons p stats)
  obtain dn c where p: "p = (dn, c)" by (cases p)
  show ?case
  proof (cases "\<exists>d. dn = Str d \<and> printable env (Str d)")
    case False
    then show ?thesis
      using Cons.prems by (cases dn) (simp_all add: p print_rows_Cons)
  next
    case True
    then obtain d where d: "dn = Str d" "printable env (Str d)"
      by blast
    let ?line = "ljust 40 d @ uni '' | '' @ ljust 10 (uni (str_int c))"
    have step: "print_rows env ((dn, c) # stats) out = print_rows env stats (out @ [?line])"
      using d by (simp add: print_rows_Cons)
    have fmt: "format_row dn c = Inr ?line"
      by (simp add: format_row_def d(1))
    show ?thesis
    proof (cases i)
      case 0
      have "take (Suc (length out)) (fst (print_rows env stats (out @ [?line]))) = out @ [?line]"
        using print_rows_prefix [of "out @ [?line]" env stats] by simp
      then have "fst (print_rows env stats (out @ [?line])) ! length out = ?line"
        by (metis lessI nth_append_length nth_take)
      then show ?thesis using fmt 0 by (simp add: p step)
    next
      case (Suc k)
      then show ?thesis
        using Cons.IH [of k "out @ [?line]"] Cons.prems by (simp add: p step)
    qed
  qed
qed

lemma print_rows_length:
  "length (fst (print_rows env stats out))
     = length out + length (takeWhile (\<lambda>p. printable env (fst p)) stats)"
proof (induction stats arbitrary: out)
  case Nil
  show ?case by simp
next
  case (Cons p stats)
  obtain dn c where p: "p = (dn, c)" by (cases p)
  show ?case
  proof (cases dn)
    case (Bytes b)
    then show ?thesis
      by (simp add: p print_rows_Cons printable_def)
  next
    case (Str d)
    then show ?thesis
      using Cons.IH by (simp add: p print_rows_Cons)
  qed
qed

lemma print_rows_raised:
  "snd (print_rows env stats out) = None \<longleftrightarrow> list_all (\<lambda>p. printable env (fst p)) stats"
proof (induction stats arbitrary: out)
  case Nil
  show ?case by simp
next
  case (Cons p stats)
  obtain dn c where p: "p = (dn, c)" by (cases p)
  show ?case
  proof (cases dn)
    case (Bytes b)
    then show ?thesis
      by (simp add: p print_rows_Cons printable_def)
  next
    case (Str d)
    then show ?thesis
      using Cons.IH by (simp add: p print_rows_Cons)
  qed
qed

lemma main_Loaded:
  assumes "fs p = Loaded tabs" "extract_domains env tabs = Inr ds"
  shows "printed (main env fs p)
           = fst (print_rows env (take 30 (most_common (Counter ds))) [header, separator])"
    and "raised (main env fs p)
           = snd (print_rows env (take 30 (most_common (Counter ds))) [header, separator])"
    and "opened (main env fs p) = [p]"
proof -
  have h: "py_print env header [] = Inr [header]"
    unfolding header_text using py_print_uni [of env _ "[]"] by simp
  have s: "py_print env separator [header] = Inr [header, separator]"
    unfolding separator_def using py_print_uni [of env _ "[header]"] by simp
  show "printed (main env fs p)
           = fst (print_rows env (take 30 (most_common (Counter ds))) [header, separator])"
    and "raised (main env fs p)
           = snd (print_rows env (take 30 (most_common (Counter ds))) [header, separator])"
    and "opened (main env fs p) = [p]"
    using assms by (simp_all add: main_def Let_def h s split: prod.splits)
qed

lemma keys_most_common_Counter: "set (map fst (most_common (Counter ds))) = set ds"
proof -
  have "set (map fst (most_common (Counter ds))) = fst ` set (Counter ds)"
    by (simp add: set_most_common)
  also have "\<dots> = set (map fst (Counter ds))"
    by simp
  also have "\<dots> = set ds"
    by (rule set_keys_Counter)
  finally show ?thesis .
qed




lemma main_Loaded_run:
  assumes "fs p = Loaded tabs" "extract_domains env tabs = Inr ds"
  shows "main env fs p =
           \<lparr>printed = fst (print_rows env (take 30 (most_common (Counter ds)))
                            [header, separator]),
            opened = [p],
            raised = snd (print_rows env (take 30 (most_common (Counter ds)))
                            [header, separator])\<rparr>"
  using main_Loaded [where fs = fs and p = p, OF assms] by (intro run.equality) simp_all

subsection \<open>Evaluation of the examples\<close>

lemmas eval_defs = urlparse_netloc_def urlsplit_netloc_def Let_def strip_scheme_def
  splitnetloc_def is_netloc_delim_def checknetloc_raises_def example_env_def uni_def ord_def
  is_c0_control_or_space_def is_unsafe_url_byte_def ascii_letters_def scheme_chars_def
  bracketed_host_def

lemmas run_defs = extract_domains_def iterate_def comprehension.simps contains_url_def
  subscript_url_def eval_defs

lemmas input_defs = well_typed_def well_typed_record_def accepted_input_def accepted_record_def
  printable_input_def printable_record_def url_netloc_def netloc_rejected_def encodable_def
  url_records_def has_url_def record_without_url_def eval_defs

section \<open>The claims\<close>

subsection \<open>The Aggregator's ranking\<close>

text \<open>
  Claim C1. For every sequence of extracted domains, the ranking
  \<^verbatim>\<open>Counter(domains).most_common()\<close> is sorted by non-increasing count, and of two
  entries with equal counts the one ranked first is the one whose domain occurs first
  in the domain sequence. The ranking holds exactly the distinct domains, each once,
  with the number of its occurrences.
\<close>

theorem ranking_sorted_stable:
  "sorted_wrt (\<lambda>a b. snd b \<le> snd a) (most_common (Counter ds))
   \<and> (\<forall>i j. i < j \<and> j < length (most_common (Counter ds))
            \<and> snd (most_common (Counter ds) ! i) = snd (most_common (Counter ds) ! j)
          \<longrightarrow> first_index ds (fst (most_common (Counter ds) ! i))
                < first_index ds (fst (most_common (Counter ds) ! j)))
   \<and> set (most_common (Counter ds)) = (\<lambda>d. (d, int (count_list ds d))) ` set ds
   \<and> distinct (map fst (most_common (Counter ds)))"
proof -
  let ?stats = "most_common (Counter ds)"
  let ?R = "\<lambda>a b. first_index ds (fst a) < first_index ds (fst b)"
  have order: "sorted_wrt ?R (Counter ds)"
    using keys_Counter_order [of ds] by (simp only: sorted_wrt_map)
  have stable: "?R (?stats ! i) (?stats ! j)"
    if ij: "i < j" "j < length ?stats" and eq: "snd (?stats ! i) = snd (?stats ! j)" for i j
  proof -
    let ?P = "\<lambda>p. snd p = snd (?stats ! j)"
    have "filter ?P ?stats = filter ?P (Counter ds)"
      by (rule most_common_stable)
    moreover have "sorted_wrt ?R (filter ?P (Counter ds))"
      using order by (rule sorted_wrt_filter)
    ultimately have "sorted_wrt ?R (filter ?P ?stats)"
      by (simp only:)
    then show ?thesis
      using ij eq by (rule sorted_wrt_filter_nth) (rule refl)
  qed
  have 1: "sorted_wrt (\<lambda>a b. snd b \<le> snd a) ?stats"
    by (rule most_common_sorted)
  have 2: "\<forall>i j. i < j \<and> j < length ?stats \<and> snd (?stats ! i) = snd (?stats ! j)
             \<longrightarrow> first_index ds (fst (?stats ! i)) < first_index ds (fst (?stats ! j))"
    using stable by blast
  have 3: "set ?stats = (\<lambda>d. (d, int (count_list ds d))) ` set ds"
    by (simp only: set_most_common set_Counter)
  have 4: "distinct (map fst ?stats)"
    by (rule distinct_keys_most_common) (rule distinct_keys_Counter)
  from 1 2 3 4 show ?thesis by (intro conjI)
qed

text \<open>The ranking of \<^verbatim>\<open>b a b c a d\<close>: the tie of \<^verbatim>\<open>b\<close> and \<^verbatim>\<open>a\<close> keeps \<^verbatim>\<open>b\<close> first.\<close>

theorem ranking_sorted_stable_witness:
  "most_common (Counter [''b'', ''a'', ''b'', ''c'', ''a'', ''d''])
     = [(''b'', 2), (''a'', 2), (''c'', 1), (''d'', 1)]
   \<and> sorted_wrt (\<lambda>a b. snd b \<le> snd a)
         (most_common (Counter [''b'', ''a'', ''b'', ''c'', ''a'', ''d'']))
   \<and> first_index [''b'', ''a'', ''b'', ''c'', ''a'', ''d''] ''b''
       < first_index [''b'', ''a'', ''b'', ''c'', ''a'', ''d''] ''a''"
proof -
  let ?ds = "[''b'', ''a'', ''b'', ''c'', ''a'', ''d'']"
  have eq: "most_common (Counter ?ds) = [(''b'', 2), (''a'', 2), (''c'', 1), (''d'', 1)]"
    by (simp add: Counter_def most_common_def)
  note th = ranking_sorted_stable [of ?ds]
  have sorted: "sorted_wrt (\<lambda>a b. snd b \<le> snd a) (most_common (Counter ?ds))"
    using th by (rule conjunct1)
  have "(0::nat) < 1 \<and> 1 < length (most_common (Counter ?ds))
        \<and> snd (most_common (Counter ?ds) ! 0) = snd (most_common (Counter ?ds) ! 1)"
    by (simp add: eq)
  then have "first_index ?ds (fst (most_common (Counter ?ds) ! 0))
             < first_index ?ds (fst (most_common (Counter ?ds) ! 1))"
    by (rule th [THEN conjunct2, THEN conjunct1, rule_format])
  then have "first_index ?ds ''b'' < first_index ?ds ''a''"
    by (simp only: eq nth_Cons_0 One_nat_def nth_Cons_Suc fst_conv)
  with eq sorted show ?thesis by (intro conjI)
qed

text \<open>
  Claim C2. For every well-typed input (a sequence of mappings whose \<^verbatim>\<open>url\<close>
  values, when present, are strings) from which the Domain Extractor returns the domain
  sequence \<open>ds\<close>, the counts of the Frequency Table \<^verbatim>\<open>Counter(domains)\<close> add up to
  the number of records that contain a \<^verbatim>\<open>url\<close> key.
\<close>

theorem frequency_sum:
  assumes "well_typed tabs" "extract_domains env tabs = Inr ds"
  shows "sum_list (map snd (Counter ds)) = int (length (url_records tabs))"
proof -
  from assms(1) obtain ts where ts: "tabs = JArray ts" "list_all well_typed_record ts"
    by (auto simp: well_typed_def split: json.splits)
  with assms(2) have "comprehension env ts = Inr ds"
    by (simp add: extract_domains_def iterate_def)
  with ts(2) have "length ds = length (filter has_url ts)"
    using comprehension_well_typed by blast
  then show ?thesis
    by (simp add: sum_Counter url_records_def ts(1))
qed

theorem frequency_sum_witness:
  "well_typed (JArray [JObject [(uni ''url'', JString (uni ''https://a.com/x''))],
                       JObject [(uni ''title'', JString (uni ''t''))],
                       JObject [(uni ''url'', JString (uni ''https://a.com/y''))],
                       JObject [(uni ''url'', JString (uni ''not a url''))]])
   \<and> extract_domains example_env
         (JArray [JObject [(uni ''url'', JString (uni ''https://a.com/x''))],
                  JObject [(uni ''title'', JString (uni ''t''))],
                  JObject [(uni ''url'', JString (uni ''https://a.com/y''))],
                  JObject [(uni ''url'', JString (uni ''not a url''))]])
       = Inr [Str (uni ''a.com''), Str (uni ''a.com''), Str []]
   \<and> sum_list (map snd (Counter [Str (uni ''a.com''), Str (uni ''a.com''), Str []])) = 3
   \<and> length (url_records
         (JArray [JObject [(uni ''url'', JString (uni ''https://a.com/x''))],
                  JObject [(uni ''title'', JString (uni ''t''))],
                  JObject [(uni ''url'', JString (uni ''https://a.com/y''))],
                  JObject [(uni ''url'', JString (uni ''not a url''))]])) = 3"
proof -
  let ?T = "JArray [JObject [(uni ''url'', JString (uni ''https://a.com/x''))],
                    JObject [(uni ''title'', JString (uni ''t''))],
                    JObject [(uni ''url'', JString (uni ''https://a.com/y''))],
                    JObject [(uni ''url'', JString (uni ''not a url''))]]"
  have a: "well_typed ?T"
    by (simp add: input_defs)
  have b: "extract_domains example_env ?T
             = Inr [Str (uni ''a.com''), Str (uni ''a.com''), Str []]"
    by (simp add: run_defs)
  have c: "length (url_records ?T) = 3"
    by (simp add: input_defs)
  have "sum_list (map snd (Counter [Str (uni ''a.com''), Str (uni ''a.com''), Str []]))
          = int (length (url_records ?T))"
    using a b by (rule frequency_sum)
  then have "sum_list (map snd (Counter [Str (uni ''a.com''), Str (uni ''a.com''), Str []])) = 3"
    by (simp only: c of_nat_numeral)
  with a b c show ?thesis by (intro conjI)
qed

subsection \<open>Exceptions of the later stages\<close>

text \<open>
  Claim C3 says that no string \<^verbatim>\<open>url\<close> value makes the extraction raise. It does
  not hold: for \<^verbatim>\<open>http://[\<close> the netloc has an opening bracket and no closing one,
  and for \<^verbatim>\<open>http://\<close> followed by \<^verbatim>\<open>U+2100\<close> and \<^verbatim>\<open>.com/\<close> NFKC normalisation
  brings a \<^verbatim>\<open>/\<close> into the netloc. \<^verbatim>\<open>urlsplit\<close> raises \<^verbatim>\<open>ValueError\<close> on both, and
  the exception leaves \<^verbatim>\<open>main\<close> before anything is printed.
\<close>

theorem urlparse_raises:
  "urlparse_netloc example_env (JString (uni ''http://['')) = Inl ValueError
   \<and> urlparse_netloc example_env (JString (uni ''http://'' @ [0x2100] @ uni ''.com/''))
       = Inl ValueError
   \<and> main example_env
         (\<lambda>p. Loaded (JArray [JObject [(uni ''url'', JString (uni ''http://[''))]]))
         ''tabs.json''
       = \<lparr>printed = [], opened = [''tabs.json''], raised = Some ValueError\<rparr>"
proof (intro conjI)
  show "urlparse_netloc example_env (JString (uni ''http://['')) = Inl ValueError"
    by (simp add: eval_defs)
  show "urlparse_netloc example_env (JString (uni ''http://'' @ [0x2100] @ uni ''.com/''))
          = Inl ValueError"
    by (simp add: eval_defs)
  show "main example_env
         (\<lambda>p. Loaded (JArray [JObject [(uni ''url'', JString (uni ''http://[''))]]))
         ''tabs.json''
       = \<lparr>printed = [], opened = [''tabs.json''], raised = Some ValueError\<rparr>"
    by code_simp
qed

text \<open>
  Claim C3, amended. A string \<^verbatim>\<open>url\<close> value is mapped to its authority component
  (possibly empty) unless \<^verbatim>\<open>urlparse\<close> rejects that component, and then
  \<^verbatim>\<open>ValueError\<close> is raised. On a well-typed input all of whose \<^verbatim>\<open>url\<close> values are
  accepted the extraction does not raise: it returns one \<^verbatim>\<open>str\<close> domain for each
  record with a \<^verbatim>\<open>url\<close> key, and each of them is counted. On a well-typed input with
  a rejected \<^verbatim>\<open>url\<close> value it raises \<^verbatim>\<open>ValueError\<close>.
\<close>

theorem accepted_urls_extracted:
  assumes "well_typed tabs"
  shows "urlparse_netloc env (JString u)
           = (if netloc_rejected env (url_netloc u) then Inl ValueError
              else Inr (Str (url_netloc u)))
         \<and> (if accepted_input env tabs
            then \<exists>ds. extract_domains env tabs = Inr ds \<and> list_all is_str ds
                   \<and> length ds = length (url_records tabs)
                   \<and> sum_list (map snd (Counter ds)) = int (length (url_records tabs))
            else extract_domains env tabs = Inl ValueError)"
proof -
  have one: "urlparse_netloc env (JString u)
           = (if netloc_rejected env (url_netloc u) then Inl ValueError
              else Inr (Str (url_netloc u)))"
    by (simp add: urlparse_netloc_def urlsplit_netloc_eq)
  show ?thesis
  proof (cases "accepted_input env tabs")
    case True
    from extract_domains_accepted [OF True] obtain ds where
      ds: "extract_domains env tabs = Inr ds" "list_all is_str ds"
        "length ds = length (url_records tabs)"
      by blast
    then have "sum_list (map snd (Counter ds)) = int (length (url_records tabs))"
      by (simp add: sum_Counter)
    with ds have "\<exists>ds. extract_domains env tabs = Inr ds \<and> list_all is_str ds
                   \<and> length ds = length (url_records tabs)
                   \<and> sum_list (map snd (Counter ds)) = int (length (url_records tabs))"
      by blast
    with one True show ?thesis by simp
  next
    case False
    with assms have "extract_domains env tabs = Inl ValueError"
      by (rule extract_domains_rejected)
    with one False show ?thesis by simp
  qed
qed

text \<open>
  A url with square brackets in its query and one with a bracketed IPv6 host are both
  accepted.
\<close>

theorem accepted_urls_extracted_witness:
  "well_typed
     (JArray [JObject [(uni ''url'', JString (uni ''https://example.com/list?filter[name]=x''))],
              JObject [(uni ''title'', JString (uni ''t''))],
              JObject [(uni ''url'', JString (uni ''http://[::1]:80/x''))],
              JObject [(uni ''url'', JString (uni ''not a url''))]])
   \<and> accepted_input example_env
     (JArray [JObject [(uni ''url'', JString (uni ''https://example.com/list?filter[name]=x''))],
              JObject [(uni ''title'', JString (uni ''t''))],
              JObject [(uni ''url'', JString (uni ''http://[::1]:80/x''))],
              JObject [(uni ''url'', JString (uni ''not a url''))]])
   \<and> extract_domains example_env
     (JArray [JObject [(uni ''url'', JString (uni ''https://example.com/list?filter[name]=x''))],
              JObject [(uni ''title'', JString (uni ''t''))],
              JObject [(uni ''url'', JString (uni ''http://[::1]:80/x''))],
              JObject [(uni ''url'', JString (uni ''not a url''))]])
     = Inr [Str (uni ''example.com''), Str (uni ''[::1]:80''), Str []]
   \<and> sum_list (map snd (Counter [Str (uni ''example.com''), Str (uni ''[::1]:80''), Str []]))
     = 3"
proof -
  let ?T = "JArray
     [JObject [(uni ''url'', JString (uni ''https://example.com/list?filter[name]=x''))],
      JObject [(uni ''title'', JString (uni ''t''))],
      JObject [(uni ''url'', JString (uni ''http://[::1]:80/x''))],
      JObject [(uni ''url'', JString (uni ''not a url''))]]"
  let ?ds = "[Str (uni ''example.com''), Str (uni ''[::1]:80''), Str []]"
  have a: "well_typed ?T"
    by (simp add: input_defs)
  have b: "accepted_input example_env ?T"
    by (simp add: input_defs)
  have c: "extract_domains example_env ?T = Inr ?ds"
    by (simp add: run_defs)
  have d: "length (url_records ?T) = 3"
    by (simp add: input_defs)
  from accepted_urls_extracted [OF a, of example_env "[]"] b obtain ds where
    "extract_domains example_env ?T = Inr ds"
    "sum_list (map snd (Counter ds)) = int (length (url_records ?T))"
    by auto
  with c d have "sum_list (map snd (Counter ?ds)) = 3"
    by simp
  with a b c show ?thesis by (intro conjI)
qed




subsection \<open>The Reporter's table\<close>

text \<open>
  Claim C5 says that for every input the Reporter prints exactly one row per ranked
  entry when there are 30 or fewer. It does not hold: for \<^verbatim>\<open>[{"url": ""}, {"url": null}]\<close>
  the ranking has two entries, the domains \<^verbatim>\<open>''\<close> and \<^verbatim>\<open>b''\<close>, and one row is
  printed, because formatting the \<^verbatim>\<open>bytes\<close> domain raises \<^verbatim>\<open>TypeError\<close>.
\<close>

theorem bytes_domain_ends_report:
  "extract_domains example_env
     (JArray [JObject [(uni ''url'', JString [])], JObject [(uni ''url'', JNull)]])
     = Inr [Str [], Bytes []]
   \<and> most_common (Counter [Str [], Bytes []]) = [(Str [], 1), (Bytes [], 1)]
   \<and> main example_env
       (\<lambda>p. Loaded (JArray [JObject [(uni ''url'', JString [])], JObject [(uni ''url'', JNull)]]))
       ''tabs.json''
     = \<lparr>printed = [header, separator,
                     uni ''                                         | 1         ''],
        opened = [''tabs.json''], raised = Some TypeError\<rparr>"
proof -
  let ?T = "JArray [JObject [(uni ''url'', JString [])], JObject [(uni ''url'', JNull)]]"
  have e: "extract_domains example_env ?T = Inr [Str [], Bytes []]"
    by code_simp
  have r: "most_common (Counter [Str [], Bytes []]) = [(Str [], 1), (Bytes [], 1)]"
    by (simp add: Counter_def most_common_def)
  have row: "ljust 40 [] @ uni '' | '' @ ljust 10 (uni (str_int 1))
               = uni ''                                         | 1         ''"
    by code_simp
  have l: "(\<lambda>p. Loaded ?T) ''tabs.json'' = Loaded ?T"
    by simp
  have "main example_env (\<lambda>p. Loaded ?T) ''tabs.json''
     = \<lparr>printed = [header, separator,
                     uni ''                                         | 1         ''],
        opened = [''tabs.json''], raised = Some TypeError\<rparr>"
    unfolding main_Loaded_run [where fs = "\<lambda>p. Loaded ?T", OF l e] r
    by (simp add: print_rows_Cons printable_def row)
  with e r show ?thesis by (intro conjI)
qed

text \<open>
  Claim C5, amended. For every loaded input from which the Domain Extractor returns the
  domain sequence \<open>ds\<close>, the ranking holds every distinct domain of \<open>ds\<close> exactly once
  (no limit at the aggregation stage); the Reporter prints the header, the separator and
  at most 30 data rows: one for each of the first 30 ranked entries up to the first whose
  domain is not a \<^verbatim>\<open>str\<close> that standard output can encode. When all of the first 30
  are, it prints exactly one row per ranked entry up to 30 and does not raise.
\<close>

theorem ranking_complete_rows_bounded:
  assumes "fs p = Loaded tabs" "extract_domains env tabs = Inr ds"
  shows "set (map fst (most_common (Counter ds))) = set ds
         \<and> distinct (map fst (most_common (Counter ds)))
         \<and> length (most_common (Counter ds)) = card (set ds)
         \<and> take 2 (printed (main env fs p)) = [header, separator]
         \<and> length (printed (main env fs p)) - 2 \<le> 30
         \<and> length (printed (main env fs p)) - 2
             = length (takeWhile (\<lambda>q. printable env (fst q))
                         (take 30 (most_common (Counter ds))))
         \<and> (list_all (\<lambda>q. printable env (fst q)) (take 30 (most_common (Counter ds))) \<longrightarrow>
              length (printed (main env fs p)) - 2 = min 30 (card (set ds))
              \<and> raised (main env fs p) = None)"
proof -
  let ?stats = "most_common (Counter ds)"
  let ?rows = "print_rows env (take 30 ?stats) [header, separator]"
  let ?P = "\<lambda>q. printable env (fst q)"
  have keys: "set (map fst ?stats) = set ds"
    by (rule keys_most_common_Counter)
  have dist: "distinct (map fst ?stats)"
    by (rule distinct_keys_most_common) (rule distinct_keys_Counter)
  have "card (set (map fst ?stats)) = length (map fst ?stats)"
    using dist by (rule distinct_card)
  then have len: "length ?stats = card (set ds)"
    by (simp only: keys length_map)
  have printed: "printed (main env fs p) = fst ?rows"
    and raised: "raised (main env fs p) = snd ?rows"
    using main_Loaded [where fs = fs and p = p, OF assms] by simp_all
  have pre: "2 \<le> length (fst ?rows)
      \<and> length (fst ?rows) \<le> 2 + length (take 30 ?stats)
      \<and> take 2 (fst ?rows) = [header, separator]"
    using print_rows_prefix [of "[header, separator]" env "take 30 ?stats"]
    by (simp add: numeral_2_eq_2)
  then have head: "take 2 (printed (main env fs p)) = [header, separator]"
    by (simp only: printed)
  have "length (take 30 ?stats) \<le> 30"
    by simp
  with pre have bound: "length (printed (main env fs p)) - 2 \<le> 30"
    unfolding printed by linarith
  have rows: "length (printed (main env fs p)) - 2 = length (takeWhile ?P (take 30 ?stats))"
    unfolding printed using print_rows_length [of env "take 30 ?stats" "[header, separator]"]
    by simp
  have full: "length (printed (main env fs p)) - 2 = min 30 (card (set ds))
              \<and> raised (main env fs p) = None" if all: "list_all ?P (take 30 ?stats)"
  proof -
    from all have "takeWhile ?P (take 30 ?stats) = take 30 ?stats"
      by (simp add: list_all_iff)
    with rows have "length (printed (main env fs p)) - 2 = min 30 (card (set ds))"
      by (simp add: len min.commute)
    moreover from all have "raised (main env fs p) = None"
      by (simp add: raised print_rows_raised)
    ultimately show ?thesis by simp
  qed
  from keys dist len head bound rows full show ?thesis by blast
qed

theorem ranking_complete_rows_bounded_witness:
  "extract_domains example_env
     (JArray [JObject [(uni ''url'', JString (uni ''https://b.org/''))],
              JObject [(uni ''url'', JString (uni ''https://a.com/x''))],
              JObject [(uni ''url'', JString (uni ''https://a.com/y''))]])
     = Inr [Str (uni ''b.org''), Str (uni ''a.com''), Str (uni ''a.com'')]
   \<and> take 30 (most_common (Counter [Str (uni ''b.org''), Str (uni ''a.com''), Str (uni ''a.com'')]))
       = [(Str (uni ''a.com''), 2), (Str (uni ''b.org''), 1)]
   \<and> length (printed (main example_env
         (\<lambda>p. Loaded (JArray [JObject [(uni ''url'', JString (uni ''https://b.org/''))],
                                JObject [(uni ''url'', JString (uni ''https://a.com/x''))],
                                JObject [(uni ''url'', JString (uni ''https://a.com/y''))]]))
         ''tabs.json'')) - 2
       = min 30 (card (set [Str (uni ''b.org''), Str (uni ''a.com''), Str (uni ''a.com'')]))
   \<and> raised (main example_env
         (\<lambda>p. Loaded (JArray [JObject [(uni ''url'', JString (uni ''https://b.org/''))],
                                JObject [(uni ''url'', JString (uni ''https://a.com/x''))],
                                JObject [(uni ''url'', JString (uni ''https://a.com/y''))]]))
         ''tabs.json'') = None"
proof -
  let ?T = "JArray [JObject [(uni ''url'', JString (uni ''https://b.org/''))],
                    JObject [(uni ''url'', JString (uni ''https://a.com/x''))],
                    JObject [(uni ''url'', JString (uni ''https://a.com/y''))]]"
  let ?ds = "[Str (uni ''b.org''), Str (uni ''a.com''), Str (uni ''a.com'')]"
  have a: "(\<lambda>p. Loaded ?T) ''tabs.json'' = Loaded ?T"
    by simp
  have b: "extract_domains example_env ?T = Inr ?ds"
    by (simp add: run_defs)
  have ne: "uni ''b.org'' \<noteq> uni ''a.com''"
    by (simp add: uni_def ord_def)
  have r: "take 30 (most_common (Counter ?ds))
             = [(Str (uni ''a.com''), 2), (Str (uni ''b.org''), 1)]"
    using ne by (simp add: Counter_def most_common_def)
  have c: "list_all (\<lambda>q. printable example_env (fst q)) (take 30 (most_common (Counter ?ds)))"
    unfolding r by (simp add: printable_def encodable_uni)
  note th = ranking_complete_rows_bounded
    [where fs = "\<lambda>p. Loaded ?T" and p = "''tabs.json''", OF a b]
  from th c have f: "length (printed (main example_env (\<lambda>p. Loaded ?T) ''tabs.json'')) - 2
       = min 30 (card (set ?ds))
     \<and> raised (main example_env (\<lambda>p. Loaded ?T) ''tabs.json'') = None"
    by blast
  from b r f show ?thesis by (intro conjI) simp_all
qed

text \<open>
  Claim C8. Every printed data row is, for the ranked entry at its position, the whole
  domain followed by the spaces that fill it up to 40 characters (none when the domain
  is longer: it is never cut), then \<^verbatim>\<open> | \<close>, then the decimal count followed by the spaces
  that fill it up to 10 characters.
\<close>

theorem data_rows_padded:
  assumes "fs p = Loaded tabs" "extract_domains env tabs = Inr ds"
    and "i < length (printed (main env fs p)) - 2"
  shows "\<exists>d c. most_common (Counter ds) ! i = (Str d, c)
           \<and> printed (main env fs p) ! (i + 2)
               = d @ replicate (40 - length d) (ord CHR '' '') @ uni '' | ''
                   @ uni (str_int c) @ replicate (10 - length (str_int c)) (ord CHR '' '')"
proof -
  let ?stats = "most_common (Counter ds)"
  let ?rows = "print_rows env (take 30 ?stats) [header, separator]"
  have printed: "printed (main env fs p) = fst ?rows"
    using main_Loaded [where fs = fs and p = p, OF assms(1,2)] by simp
  have l2: "length [header, separator] = 2"
    by simp
  have i: "i < length (fst ?rows) - 2"
    using assms(3) by (simp only: printed)
  have "length (fst ?rows) \<le> 2 + length (take 30 ?stats)"
    using print_rows_prefix [of "[header, separator]" env "take 30 ?stats"]
    unfolding l2 by blast
  with i have i30: "i < length (take 30 ?stats)"
    by linarith
  then have nth: "take 30 ?stats ! i = ?stats ! i"
    by simp
  have "format_row (fst (take 30 ?stats ! i)) (snd (take 30 ?stats ! i))
          = Inr (fst ?rows ! (length [header, separator] + i))"
    using i by (intro print_rows_nth) (simp only: l2)
  then have row: "format_row (fst (?stats ! i)) (snd (?stats ! i))
               = Inr (printed (main env fs p) ! (i + 2))"
    by (simp only: nth printed l2 add.commute)
  obtain dn c where dc: "?stats ! i = (dn, c)"
    by (cases "?stats ! i")
  show ?thesis
  proof (cases dn)
    case (Str d)
    with row dc show ?thesis
      by (simp add: format_row_def ljust_def length_uni)
  next
    case (Bytes b)
    with row dc show ?thesis
      by (simp add: format_row_def)
  qed
qed

theorem data_rows_padded_witness:
  "printed (main example_env
     (\<lambda>p. Loaded (JArray
        [JObject [(uni ''url'',
           JString (uni ''https://a-rather-long-subdomain-label.of.an.example-site.org/x''))]]))
     ''tabs.json'')
     = [uni ''Domain                                   | Count     '',
        uni ''-----------------------------------------------------'',
        uni ''a-rather-long-subdomain-label.of.an.example-site.org | 1         '']
   \<and> (\<exists>d c. most_common
                 (Counter [Str (uni ''a-rather-long-subdomain-label.of.an.example-site.org'')])
                 ! 0 = (Str d, c)
          \<and> uni ''a-rather-long-subdomain-label.of.an.example-site.org | 1         ''
              = d @ replicate (40 - length d) (ord CHR '' '') @ uni '' | ''
                  @ uni (str_int c) @ replicate (10 - length (str_int c)) (ord CHR '' ''))"
proof -
  let ?T = "JArray [JObject [(uni ''url'',
              JString (uni ''https://a-rather-long-subdomain-label.of.an.example-site.org/x''))]]"
  let ?d = "Str (uni ''a-rather-long-subdomain-label.of.an.example-site.org'')"
  let ?run = "main example_env (\<lambda>p. Loaded ?T) ''tabs.json''"
  have a: "(\<lambda>p. Loaded ?T) ''tabs.json'' = Loaded ?T"
    by simp
  have b: "extract_domains example_env ?T = Inr [?d]"
    by (simp add: run_defs)
  have r: "take 30 (most_common (Counter [?d])) = [(?d, 1)]"
    by (simp add: Counter_def most_common_def)
  have row: "ljust 40 (uni ''a-rather-long-subdomain-label.of.an.example-site.org'')
               @ uni '' | '' @ ljust 10 (uni (str_int 1))
             = uni ''a-rather-long-subdomain-label.of.an.example-site.org | 1         ''"
    by code_simp
  have sep: "separator = uni ''-----------------------------------------------------''"
    by code_simp
  have d: "printed ?run
       = [uni ''Domain                                   | Count     '',
          uni ''-----------------------------------------------------'',
          uni ''a-rather-long-subdomain-label.of.an.example-site.org | 1         '']"
    unfolding main_Loaded(1) [where fs = "\<lambda>p. Loaded ?T", OF a b] r
    by (simp add: print_rows_Cons printable_def encodable_uni row header_text sep)
  have i: "0 < length (printed ?run) - 2"
    by (simp only: d) simp
  have nth: "printed ?run ! (0 + 2)
               = uni ''a-rather-long-subdomain-label.of.an.example-site.org | 1         ''"
    by (simp only: d) simp
  from data_rows_padded [where fs = "\<lambda>p. Loaded ?T" and p = "''tabs.json''", OF a b i]
  have "\<exists>d c. most_common (Counter [?d]) ! 0 = (Str d, c)
          \<and> uni ''a-rather-long-subdomain-label.of.an.example-site.org | 1         ''
              = d @ replicate (40 - length d) (ord CHR '' '') @ uni '' | ''
                  @ uni (str_int c) @ replicate (10 - length (str_int c)) (ord CHR '' '')"
    by (simp only: nth)
  with d show ?thesis by (intro conjI)
qed

text \<open>
  Claim C10. When the file loads to a sequence of mappings none of which has a
  \<^verbatim>\<open>url\<close> key (the empty sequence included), \<^verbatim>\<open>main\<close> prints the header row
  (\<^verbatim>\<open>Domain\<close> filled to 40 characters, \<^verbatim>\<open> | \<close>, \<^verbatim>\<open>Count\<close> filled to 10 characters)
  and the separator of 53 dashes, no data row, and returns without an exception.
\<close>

theorem no_url_empty_table:
  assumes "fs p = Loaded (JArray ts)" "list_all record_without_url ts"
  shows "main env fs p =
           \<lparr>printed = [uni ''Domain                                   | Count     '',
                       uni (replicate 53 CHR ''-'')],
            opened = [p], raised = None\<rparr>"
proof -
  have "extract_domains env (JArray ts) = Inr []"
    using assms(2) by (simp add: extract_domains_def iterate_def comprehension_no_url)
  then show ?thesis
    using assms(1)
    by (simp add: main_def Counter_def most_common_def header_text separator_def py_print_uni)
qed

theorem no_url_empty_table_witness:
  "list_all record_without_url
     [JObject [(uni ''title'', JString (uni ''t''))], JObject []]
   \<and> main example_env
         (\<lambda>p. Loaded (JArray [JObject [(uni ''title'', JString (uni ''t''))], JObject []]))
         ''tabs.json''
       = \<lparr>printed = [uni ''Domain                                   | Count     '',
                       uni (replicate 53 CHR ''-'')],
          opened = [''tabs.json''], raised = None\<rparr>
   \<and> main example_env (\<lambda>p. Loaded (JArray [])) ''tabs.json''
       = \<lparr>printed = [uni ''Domain                                   | Count     '',
                       uni (replicate 53 CHR ''-'')],
          opened = [''tabs.json''], raised = None\<rparr>"
proof -
  have a: "list_all record_without_url
             [JObject [(uni ''title'', JString (uni ''t''))], JObject []]"
    by (simp add: input_defs)
  have b: "list_all record_without_url []"
    by simp
  have c: "(\<lambda>p. Loaded (JArray [JObject [(uni ''title'', JString (uni ''t''))], JObject []]))
             ''tabs.json''
             = Loaded (JArray [JObject [(uni ''title'', JString (uni ''t''))], JObject []])"
    by simp
  have d: "(\<lambda>p. Loaded (JArray [])) ''tabs.json'' = Loaded (JArray [])"
    by simp
  note t1 = no_url_empty_table
    [where fs = "\<lambda>p. Loaded (JArray [JObject [(uni ''title'', JString (uni ''t''))],
                                         JObject []])"
       and p = "''tabs.json''", OF c a]
  note t2 = no_url_empty_table
    [where fs = "\<lambda>p. Loaded (JArray [])" and p = "''tabs.json''", OF d b]
  from a t1 t2 show ?thesis by (intro conjI)
qed

subsection \<open>The Loader's error reports\<close>



text \<open>
  Claim C7. For every existing file that cannot be opened, read or decoded as JSON,
  \<^verbatim>\<open>main\<close> prints the single line \<^verbatim>\<open>Error reading JSON: \<close> followed by the message
  of the exception, prints no table and returns without an exception.
\<close>

theorem load_failure_reported:
  assumes "fs p = Unloadable msg"
  shows "main env fs p =
           \<lparr>printed = [uni (''Error reading JSON: '' @ msg)], opened = [p], raised = None\<rparr>"
  using assms by (simp add: main_def py_print_uni)

theorem load_failure_reported_witness:
  "main example_env
     (\<lambda>p. Unloadable ''Expecting property name enclosed in double quotes: line 1 column 2 (char 1)'')
     ''bad.json'' =
     \<lparr>printed = [uni ''Error reading JSON: Expecting property name enclosed in double quotes: line 1 column 2 (char 1)''],
      opened = [''bad.json''], raised = None\<rparr>"
  using load_failure_reported
    [of "\<lambda>p. Unloadable ''Expecting property name enclosed in double quotes: line 1 column 2 (char 1)''"
        "''bad.json''"
        "''Expecting property name enclosed in double quotes: line 1 column 2 (char 1)''"
        example_env]
  by simp

end
